theory Spec2Isabelle
  imports Complex_Main "HOL-Library.Multiset"
begin

section \<open>The distance-based edge reconstruction of Network\_Analysis2.ipynb\<close>

text \<open>
  The notebook's cell 2.3 defines
  \<^verbatim>\<open>
  def euclidean_distance_model(G,pos_dict,n_edges):
      nodes = list(pos_dict.keys())
      pairs = combinations(nodes, 2)
      distance_list = []
      for u, v in pairs:
          x1 , y1 = pos_dict[u]
          x2, y2 = pos_dict[v]
          distance = math.sqrt((x2 - x1)**2 + (y2 - y1)**2)
          distance_list.append((distance, u, v))

      distance_list.sort(key=lambda x: x[0])

      ordered_pairs = [(u, v) for (d, u, v) in distance_list]

      for i in range(n_edges):
          G.add_edge(ordered_pairs[i][0], ordered_pairs[i][1])
      return G
  \<close>
  Node identifiers are Python ints (\<open>int(row[0])\<close>). Coordinates are finite Python
  floats, that is IEEE 754 binary64 numbers: a coordinate is the real number it denotes,
  and every operation of the distance computation rounds, overflows and raises as
  Python's does on floats (\<open>-\<close> and \<open>+\<close> round to nearest, ties to even, and give an
  infinity on overflow; \<open>**\<close> raises OverflowError on overflow; \<open>**\<close> and \<open>math.sqrt\<close>
  are taken as correctly rounded). Infinite and NaN coordinates are not inputs of the
  model: with a NaN key the result of \<open>list.sort\<close> depends on the sorting algorithm's
  internals. Coordinates of another numeric type (Python ints, or the numpy.float64
  scalars of \<open>np.loadtxt\<close>, whose \<open>**\<close> gives an infinity where the float's raises) are
  not modelled either.
\<close>

subsection \<open>Data\<close>

type_synonym node = int
type_synonym coord = "real \<times> real"

text \<open>
  A Python dict keeps its keys in insertion order and holds each key once: an association
  list, well formed when its keys are distinct.
\<close>

type_synonym pos_dict = "(node \<times> coord) list"

definition keys :: "pos_dict \<Rightarrow> node list" where
  "keys pos_dict = map fst pos_dict"

datatype error = IndexError | KeyError | OverflowError | ValueError

text \<open>
  \<open>G\<close> is a networkx \<open>Graph\<close>: undirected, at most one edge per unordered pair of nodes,
  self-loops allowed. The record keeps the nodes and the edges in the order of their
  insertion; whatever else the graph object carries (graph, node and edge attributes) is
  the extension part of the record.
\<close>

record graph =
  nodes :: "node list"
  edges :: "(node \<times> node) list"

definition has_node :: "'a graph_scheme \<Rightarrow> node \<Rightarrow> bool" where
  "has_node G u = (u \<in> set (nodes G))"

definition has_edge :: "'a graph_scheme \<Rightarrow> node \<Rightarrow> node \<Rightarrow> bool" where
  "has_edge G u v = ((u, v) \<in> set (edges G) \<or> (v, u) \<in> set (edges G))"

definition number_of_edges :: "'a graph_scheme \<Rightarrow> nat" where
  "number_of_edges G = length (edges G)"

definition add_node :: "'a graph_scheme \<Rightarrow> node \<Rightarrow> 'a graph_scheme" where
  "add_node G u = (if has_node G u then G else G\<lparr>nodes := nodes G @ [u]\<rparr>)"

text \<open>
  \<open>G.add_edge(u, v)\<close> of networkx: both endpoints become nodes when they are not yet,
  and the edge is stored unless the unordered pair is already one.
\<close>

definition add_edge :: "'a graph_scheme \<Rightarrow> node \<Rightarrow> node \<Rightarrow> 'a graph_scheme" where
  "add_edge G u v =
     (let G1 = add_node G u;
          G2 = add_node G1 v
      in if has_edge G2 u v then G2 else G2\<lparr>edges := edges G2 @ [(u, v)]\<rparr>)"

subsection \<open>Python floats\<close>

text \<open>
  The value of a float expression: a finite binary64 number, an infinity or NaN. The two
  zeros are one value here; they compare equal and have the same square.
\<close>

datatype pyfloat = NInf | Finite real | PInf | NaN

text \<open>
  The order in which the sort compares keys: Python's \<open><=\<close> on the floats other than
  NaN. NaN, which Python does not order, is put above everything to make the order
  linear; no distance of this model is NaN (lemma \<open>compute_distance_not_NaN\<close> below).
\<close>

instantiation pyfloat :: linorder
begin

fun less_eq_pyfloat :: "pyfloat \<Rightarrow> pyfloat \<Rightarrow> bool" where
  "less_eq_pyfloat NInf y = True"
| "less_eq_pyfloat (Finite x) NInf = False"
| "less_eq_pyfloat (Finite x) (Finite y) = (x \<le> y)"
| "less_eq_pyfloat (Finite x) PInf = True"
| "less_eq_pyfloat (Finite x) NaN = True"
| "less_eq_pyfloat PInf NInf = False"
| "less_eq_pyfloat PInf (Finite y) = False"
| "less_eq_pyfloat PInf PInf = True"
| "less_eq_pyfloat PInf NaN = True"
| "less_eq_pyfloat NaN NaN = True"
| "less_eq_pyfloat NaN y = False"

definition less_pyfloat :: "pyfloat \<Rightarrow> pyfloat \<Rightarrow> bool" where
  "less_pyfloat x y = (x \<le> y \<and> \<not> y \<le> x)"

instance
proof
  fix x y z :: pyfloat
  show "(x < y) = (x \<le> y \<and> \<not> y \<le> x)"
    by (simp add: less_pyfloat_def)
  show "x \<le> x"
    by (cases x) simp_all
  show "x \<le> y \<Longrightarrow> y \<le> z \<Longrightarrow> x \<le> z"
    by (cases x; cases y; cases z) simp_all
  show "x \<le> y \<Longrightarrow> y \<le> x \<Longrightarrow> x = y"
    by (cases x; cases y) simp_all
  show "x \<le> y \<or> y \<le> x"
    by (cases x; cases y) auto
qed

end

text \<open>\<open>int.bit_length\<close>: the number of binary digits of a positive integer.\<close>

function bit_length :: "int \<Rightarrow> int" where
  "bit_length n = (if n \<le> 0 then 0 else 1 + bit_length (n div 2))"
  by pat_completeness auto
termination
  by (relation "measure nat") auto

declare bit_length.simps [simp del]

definition pow2 :: "int \<Rightarrow> real" where
  "pow2 k = (if 0 \<le> k then 2 ^ nat k else 1 / 2 ^ nat (- k))"

text \<open>The binary exponent of a positive real: the \<open>e\<close> with \<open>2^e \<le> x < 2^(e+1)\<close>.\<close>

definition floor_log2 :: "real \<Rightarrow> int" where
  "floor_log2 x =
     (if 1 \<le> x then bit_length \<lfloor>x\<rfloor> - 1 else - bit_length (\<lceil>1 / x\<rceil> - 1))"

definition round_half_even :: "real \<Rightarrow> int" where
  "round_half_even y =
     (let f = \<lfloor>y\<rfloor>; d = y - of_int f
      in if d < 1 / 2 then f else if 1 / 2 < d then f + 1 else if even f then f else f + 1)"

text \<open>
  Rounding to binary64, to nearest and ties to even: 53 significant bits, spacing
  \<open>2^(e-52)\<close> in the binade of exponent \<open>e\<close>, spacing \<open>2^(-1074)\<close> below \<open>2^(-1022)\<close>
  (subnormal numbers), and infinity once the rounded value reaches \<open>2^1024\<close>.
\<close>

definition round_pos :: "real \<Rightarrow> pyfloat" where
  "round_pos x =
     (if x = 0 then Finite 0
      else let e = max (floor_log2 x) (- 1022);
               q = pow2 (e - 52);
               y = of_int (round_half_even (x / q)) * q
           in if pow2 1024 \<le> y then PInf else Finite y)"

fun float_neg :: "pyfloat \<Rightarrow> pyfloat" where
  "float_neg NInf = PInf"
| "float_neg (Finite x) = Finite (- x)"
| "float_neg PInf = NInf"
| "float_neg NaN = NaN"

definition float_round :: "real \<Rightarrow> pyfloat" where
  "float_round x = (if x < 0 then float_neg (round_pos (- x)) else round_pos x)"

text \<open>\<open>x2 - x1\<close> on two finite floats: the rounded difference, an infinity on overflow.\<close>

definition float_sub :: "real \<Rightarrow> real \<Rightarrow> pyfloat" where
  "float_sub x y = float_round (x - y)"

text \<open>
  \<open>v ** 2\<close>: Python raises OverflowError where the square of a finite float is out of
  range; an infinity squares to infinity.
\<close>

fun float_pow2 :: "pyfloat \<Rightarrow> error + pyfloat" where
  "float_pow2 (Finite x) =
     (if float_round (x * x) = PInf then Inl OverflowError else Inr (float_round (x * x)))"
| "float_pow2 NInf = Inr PInf"
| "float_pow2 PInf = Inr PInf"
| "float_pow2 NaN = Inr NaN"

text \<open>\<open>a + b\<close>: no exception; an overflowing sum is an infinity.\<close>

fun float_add :: "pyfloat \<Rightarrow> pyfloat \<Rightarrow> pyfloat" where
  "float_add (Finite x) (Finite y) = float_round (x + y)"
| "float_add NaN b = NaN"
| "float_add a NaN = NaN"
| "float_add PInf NInf = NaN"
| "float_add NInf PInf = NaN"
| "float_add PInf b = PInf"
| "float_add a PInf = PInf"
| "float_add NInf b = NInf"
| "float_add a NInf = NInf"

text \<open>The integer square root, by halving: the \<open>r\<close> with \<open>r * r \<le> n < (r + 1) * (r + 1)\<close>.\<close>

function isqrt :: "int \<Rightarrow> int" where
  "isqrt n =
     (if n < 2 then n
      else let r = 2 * isqrt (n div 4) in if (r + 1) * (r + 1) \<le> n then r + 1 else r)"
  by pat_completeness auto
termination
  by (relation "measure nat") auto

declare isqrt.simps [simp del]

text \<open>
  The correctly rounded square root of a finite float \<open>x \<ge> 0\<close>: with \<open>2^h \<le> sqrt x < 2^(h+1)\<close>
  and \<open>q = 2^(h-52)\<close>, the integer nearest to \<open>sqrt x / q = sqrt (x / q^2)\<close>, times \<open>q\<close>.
\<close>

definition sqrt_round :: "real \<Rightarrow> real" where
  "sqrt_round x =
     (if x = 0 then 0
      else let h = floor_log2 x div 2;
               q = pow2 (h - 52);
               t = x / (q * q);
               f = isqrt \<lfloor>t\<rfloor>;
               m = of_int (f * f + f) + 1 / 4
           in of_int (if t < m then f else if m < t then f + 1
                      else if even f then f else f + 1) * q)"

text \<open>\<open>math.sqrt\<close>: ValueError on a negative argument.\<close>

fun math_sqrt :: "pyfloat \<Rightarrow> error + pyfloat" where
  "math_sqrt (Finite x) = (if x < 0 then Inl ValueError else Inr (Finite (sqrt_round x)))"
| "math_sqrt PInf = Inr PInf"
| "math_sqrt NInf = Inl ValueError"
| "math_sqrt NaN = Inr NaN"

subsection \<open>The library functions the cell calls\<close>

text \<open>\<open>itertools.combinations(nodes, 2)\<close>: the pairs of positions \<open>i < j\<close>, lexicographically.\<close>

fun combinations2 :: "'a list \<Rightarrow> ('a \<times> 'a) list" where
  "combinations2 [] = []"
| "combinations2 (x # xs) = map (Pair x) xs @ combinations2 xs"

text \<open>\<open>pos_dict[u]\<close> raises KeyError on a missing key.\<close>

definition getitem :: "pos_dict \<Rightarrow> node \<Rightarrow> error + coord" where
  "getitem pos_dict u = (case map_of pos_dict u of None \<Rightarrow> Inl KeyError | Some c \<Rightarrow> Inr c)"

text \<open>\<open>range(n)\<close> is empty for \<open>n \<le> 0\<close>.\<close>

definition range_py :: "int \<Rightarrow> nat list" where
  "range_py n = [0..<nat n]"

subsection \<open>The function\<close>

text \<open>
  \<open>math.sqrt((x2 - x1)**2 + (y2 - y1)**2)\<close>, evaluated from left to right: the first
  square is computed, and may raise, before the second.
\<close>

fun compute_distance :: "coord \<Rightarrow> coord \<Rightarrow> error + pyfloat" where
  "compute_distance (x1, y1) (x2, y2) =
     (case float_pow2 (float_sub x2 x1) of
        Inl e \<Rightarrow> Inl e
      | Inr a \<Rightarrow>
          (case float_pow2 (float_sub y2 y1) of
             Inl e \<Rightarrow> Inl e
           | Inr b \<Rightarrow> math_sqrt (float_add a b)))"

declare compute_distance.simps [simp del]

text \<open>The body of the first loop: two lookups and the distance.\<close>

definition pair_distance :: "pos_dict \<Rightarrow> node \<Rightarrow> node \<Rightarrow> error + pyfloat" where
  "pair_distance pos_dict u v =
     (case getitem pos_dict u of
        Inl e \<Rightarrow> Inl e
      | Inr c1 \<Rightarrow>
          (case getitem pos_dict v of
             Inl e \<Rightarrow> Inl e
           | Inr c2 \<Rightarrow> compute_distance c1 c2))"

fun distance_loop ::
  "pos_dict \<Rightarrow> (node \<times> node) list \<Rightarrow> (pyfloat \<times> node \<times> node) list
     \<Rightarrow> error + (pyfloat \<times> node \<times> node) list" where
  "distance_loop pos_dict [] distance_list = Inr distance_list"
| "distance_loop pos_dict ((u, v) # pairs) distance_list =
     (case pair_distance pos_dict u v of
        Inl e \<Rightarrow> Inl e
      | Inr distance \<Rightarrow> distance_loop pos_dict pairs (distance_list @ [(distance, u, v)]))"

text \<open>
  \<open>list.sort(key=...)\<close> is a stable ascending sort, as \<^const>\<open>sort_key\<close> is. The value of
  the local variable \<open>ordered_pairs\<close>, or the exception of the first loop:
\<close>

definition ordered_pairs :: "pos_dict \<Rightarrow> error + (node \<times> node) list" where
  "ordered_pairs pos_dict =
     (let nodes = keys pos_dict;
          pairs = combinations2 nodes
      in case distance_loop pos_dict pairs [] of
           Inl e \<Rightarrow> Inl e
         | Inr distance_list \<Rightarrow>
             Inr (map (\<lambda>(d, u, v). (u, v)) (sort_key (\<lambda>x. fst x) distance_list)))"

text \<open>
  The second loop. \<open>ordered_pairs[i]\<close> raises IndexError once \<open>i\<close> reaches the length of
  the list; the edges added until then stay in \<open>G\<close>, which the caller still holds, so
  the error carries the graph as it is at the raise.
\<close>

fun add_edges_loop ::
  "(node \<times> node) list \<Rightarrow> nat list \<Rightarrow> 'a graph_scheme
     \<Rightarrow> (error \<times> 'a graph_scheme) + 'a graph_scheme" where
  "add_edges_loop ps [] G = Inr G"
| "add_edges_loop ps (i # is) G =
     (if i < length ps
      then add_edges_loop ps is (add_edge G (fst (ps ! i)) (snd (ps ! i)))
      else Inl (IndexError, G))"

definition euclidean_distance_model ::
  "'a graph_scheme \<Rightarrow> pos_dict \<Rightarrow> int \<Rightarrow> (error \<times> 'a graph_scheme) + 'a graph_scheme" where
  "euclidean_distance_model G pos_dict n_edges =
     (case ordered_pairs pos_dict of
        Inl e \<Rightarrow> Inl (e, G)
      | Inr ps \<Rightarrow> add_edges_loop ps (range_py n_edges) G)"

subsection \<open>Auxiliary notions for the statements\<close>

text \<open>The number of unordered pairs of \<open>N\<close> nodes.\<close>

definition pair_count :: "pos_dict \<Rightarrow> nat" where
  "pair_count pos_dict = length pos_dict * (length pos_dict - 1) div 2"

text \<open>The first loop raises.\<close>

definition first_loop_raises :: "pos_dict \<Rightarrow> bool" where
  "first_loop_raises pos_dict = isl (ordered_pairs pos_dict)"

text \<open>The computed distance of a pair as a total function (0 where the code raises).\<close>

definition dist_of :: "pos_dict \<Rightarrow> node \<times> node \<Rightarrow> pyfloat" where
  "dist_of pos_dict p =
     (case pair_distance pos_dict (fst p) (snd p) of Inl e \<Rightarrow> Finite 0 | Inr d \<Rightarrow> d)"

text \<open>The floats a square, a sum of squares and a square root can be.\<close>

definition nonneg_float :: "pyfloat \<Rightarrow> bool" where
  "nonneg_float a = (case a of Finite y \<Rightarrow> 0 \<le> y | PInf \<Rightarrow> True | _ \<Rightarrow> False)"


text \<open>The graph a call leaves behind, whether it returned or raised.\<close>

definition final_graph :: "(error \<times> 'a graph_scheme) + 'a graph_scheme \<Rightarrow> 'a graph_scheme" where
  "final_graph r = (case r of Inl (e, G) \<Rightarrow> G | Inr G \<Rightarrow> G)"

definition empty_graph :: graph where
  "empty_graph = \<lparr>nodes = [], edges = []\<rparr>"

text \<open>The pairs of the second loop, added one after the other.\<close>

fun add_edges :: "'a graph_scheme \<Rightarrow> (node \<times> node) list \<Rightarrow> 'a graph_scheme" where
  "add_edges G [] = G"
| "add_edges G (p # ps) = add_edges (add_edge G (fst p) (snd p)) ps"

text \<open>A list of pairs that holds no pair twice, in either orientation, and no loop.\<close>

definition simple_pairs :: "(node \<times> node) list \<Rightarrow> bool" where
  "simple_pairs ps = (distinct ps \<and> (\<forall>(u, v) \<in> set ps. u \<noteq> v \<and> (v, u) \<notin> set ps))"

text \<open>
  The candidate pairs in ascending order of computed distance, ties in the order of
  enumeration.
\<close>

definition sorted_pairs :: "pos_dict \<Rightarrow> (node \<times> node) list" where
  "sorted_pairs pos_dict = sort_key (dist_of pos_dict) (combinations2 (keys pos_dict))"

text \<open>An edge of an undirected graph as the set of its endpoints.\<close>

definition unordered :: "node \<times> node \<Rightarrow> node set" where
  "unordered e = {fst e, snd e}"

text \<open>
  What \<open>list.sort(key=f)\<close> promises of its result \<open>ys\<close> on the input \<open>xs\<close>: a
  permutation, ascending in the key, elements of equal key in their original order.
\<close>

definition stable_sort_of :: "('a \<Rightarrow> 'k::linorder) \<Rightarrow> 'a list \<Rightarrow> 'a list \<Rightarrow> bool" where
  "stable_sort_of f xs ys =
     (mset ys = mset xs \<and> sorted (map f ys) \<and>
      (\<forall>k \<in> set ys. filter (\<lambda>x. f k = f x) ys = filter (\<lambda>x. f k = f x) xs))"

text \<open>Inputs for the worked examples: a 3-4-5 triangle, in two orders of insertion.\<close>

abbreviation triangle :: pos_dict where
  "triangle \<equiv> [(1, (0, 0)), (2, (3, 0)), (3, (0, 4))]"

abbreviation triangle' :: pos_dict where
  "triangle' \<equiv> [(1, (0, 0)), (2, (0, 4)), (3, (3, 0))]"

section \<open>The float operations\<close>

lemma pow2_pos: "0 < pow2 k"
  by (simp add: pow2_def)

lemma round_half_even_nonneg: "0 \<le> y \<Longrightarrow> 0 \<le> round_half_even y"
  by (simp add: round_half_even_def Let_def)

lemma round_pos_cases: "round_pos x = PInf \<or> (\<exists>y. round_pos x = Finite y)"
  by (simp add: round_pos_def Let_def)

lemma round_pos_nonneg: "0 \<le> x \<Longrightarrow> nonneg_float (round_pos x)"
proof -
  assume x: "0 \<le> x"
  have "0 \<le> of_int (round_half_even (x / pow2 k)) * pow2 k" for k
    using x pow2_pos [of k] round_half_even_nonneg [of "x / pow2 k"] by simp
  then show ?thesis
    by (simp add: round_pos_def nonneg_float_def Let_def)
qed

lemma float_neg_neg: "float_neg (float_neg a) = a"
  by (cases a) simp_all

lemma float_round_minus: "float_round (- x) = float_neg (float_round x)"
proof -
  have "round_pos 0 = Finite 0"
    by (simp add: round_pos_def)
  then show ?thesis
    by (cases "x = 0") (auto simp: float_round_def float_neg_neg)
qed

lemma float_round_not_NaN: "float_round x \<noteq> NaN"
  using round_pos_cases [of x] round_pos_cases [of "- x"]
  by (auto simp: float_round_def)

lemma float_sub_swap: "float_sub y x = float_neg (float_sub x y)"
  using float_round_minus [of "x - y"] by (simp add: float_sub_def)

lemma float_pow2_neg: "float_pow2 (float_neg a) = float_pow2 a"
  by (cases a) simp_all

lemma float_pow2_error: "float_pow2 a = Inl e \<Longrightarrow> e = OverflowError"
  by (cases a) (auto split: if_splits)

lemma float_pow2_nonneg:
  assumes "a \<noteq> NaN" and "float_pow2 a = Inr b"
  shows "nonneg_float b"
proof (cases a)
  case (Finite x)
  have "nonneg_float (round_pos (x * x))"
    by (rule round_pos_nonneg) simp
  moreover have "float_round (x * x) = round_pos (x * x)"
    by (simp add: float_round_def not_less)
  ultimately show ?thesis
    using assms(2) Finite by (auto split: if_splits)
qed (use assms in \<open>auto simp: nonneg_float_def\<close>)

lemma float_add_nonneg:
  assumes "nonneg_float a" and "nonneg_float b"
  shows "nonneg_float (float_add a b)"
proof -
  have "nonneg_float (float_round (x + y))" if "0 \<le> x" and "0 \<le> y" for x y
  proof -
    from that have "0 \<le> x + y" by simp
    then show ?thesis
      by (simp add: round_pos_nonneg float_round_def not_less)
  qed
  then have "nonneg_float (float_add (Finite x) (Finite y))" if "0 \<le> x" and "0 \<le> y" for x y
    using that by simp
  moreover have "a = PInf \<or> (\<exists>x. a = Finite x \<and> 0 \<le> x)"
    using assms(1) by (cases a) (simp_all add: nonneg_float_def)
  moreover have "b = PInf \<or> (\<exists>y. b = Finite y \<and> 0 \<le> y)"
    using assms(2) by (cases b) (simp_all add: nonneg_float_def)
  ultimately show ?thesis
    by (auto simp: nonneg_float_def)
qed

lemma math_sqrt_nonneg:
  "nonneg_float a \<Longrightarrow> \<exists>k. math_sqrt a = Inr k \<and> k \<noteq> NaN"
  by (cases a) (auto simp: nonneg_float_def)

lemma compute_distance_cases:
  "compute_distance c1 c2 = Inl OverflowError \<or>
   (\<exists>k. compute_distance c1 c2 = Inr k \<and> k \<noteq> NaN)"
proof -
  obtain x1 y1 x2 y2 where c: "c1 = (x1, y1)" "c2 = (x2, y2)"
    by (cases c1; cases c2) auto
  show ?thesis
  proof (cases "float_pow2 (float_sub x2 x1)")
    case (Inl e)
    then show ?thesis
      using float_pow2_error [OF Inl] by (simp add: c compute_distance.simps)
  next
    case a: (Inr a)
    show ?thesis
    proof (cases "float_pow2 (float_sub y2 y1)")
      case (Inl e)
      then show ?thesis
        using float_pow2_error [OF Inl] a by (simp add: c compute_distance.simps)
    next
      case b: (Inr b)
      have "float_sub x2 x1 \<noteq> NaN" "float_sub y2 y1 \<noteq> NaN"
        by (simp_all add: float_sub_def float_round_not_NaN)
      then have "nonneg_float a" "nonneg_float b"
        using a b float_pow2_nonneg by blast+
      then have "nonneg_float (float_add a b)"
        by (rule float_add_nonneg)
      then show ?thesis
        using math_sqrt_nonneg a b by (simp add: c compute_distance.simps)
    qed
  qed
qed

lemma compute_distance_error: "compute_distance c1 c2 = Inl e \<Longrightarrow> e = OverflowError"
  using compute_distance_cases [of c1 c2] by auto

lemma compute_distance_not_NaN: "compute_distance c1 c2 = Inr k \<Longrightarrow> k \<noteq> NaN"
  using compute_distance_cases [of c1 c2] by auto

lemma compute_distance_sym: "compute_distance c1 c2 = compute_distance c2 c1"
proof -
  obtain x1 y1 x2 y2 where c: "c1 = (x1, y1)" "c2 = (x2, y2)"
    by (cases c1; cases c2) auto
  have h: "float_pow2 (float_sub x2 x1) = float_pow2 (float_sub x1 x2)"
    "float_pow2 (float_sub y2 y1) = float_pow2 (float_sub y1 y2)"
    by (simp_all add: float_sub_swap [of x2 x1] float_sub_swap [of y2 y1] float_pow2_neg)
  show ?thesis
    unfolding c compute_distance.simps h ..
qed

section \<open>The first loop raises OverflowError or returns\<close>

lemma getitem_key:
  "u \<in> set (keys pos_dict) \<Longrightarrow> \<exists>c. getitem pos_dict u = Inr c"
  by (cases "map_of pos_dict u") (auto simp: getitem_def keys_def map_of_eq_None_iff)

lemma getitem_error: "getitem pos_dict u = Inl e \<Longrightarrow> e = KeyError"
  by (auto simp: getitem_def split: option.splits)

lemma pair_distance_sym: "pair_distance pos_dict u v = pair_distance pos_dict v u"
  by (auto simp: pair_distance_def compute_distance_sym split: sum.splits
      dest!: getitem_error)

lemma pair_distance_key:
  assumes "u \<in> set (keys pos_dict)" and "v \<in> set (keys pos_dict)"
  shows "pair_distance pos_dict u v = Inl OverflowError \<or>
         pair_distance pos_dict u v = Inr (dist_of pos_dict (u, v))"
proof -
  obtain c1 c2 where "getitem pos_dict u = Inr c1" and "getitem pos_dict v = Inr c2"
    using assms getitem_key by blast
  then show ?thesis
    using compute_distance_cases [of c1 c2]
    by (auto simp: pair_distance_def dist_of_def)
qed

lemma dist_of_sym: "dist_of pos_dict (u, v) = dist_of pos_dict (v, u)"
  by (simp add: dist_of_def pair_distance_sym [of pos_dict u v])

lemma pair_distance_not_NaN: "pair_distance pos_dict u v = Inr k \<Longrightarrow> k \<noteq> NaN"
  by (auto simp: pair_distance_def split: sum.splits dest: compute_distance_not_NaN)

lemma dist_of_not_NaN: "dist_of pos_dict p \<noteq> NaN"
  by (cases "pair_distance pos_dict (fst p) (snd p)")
    (auto simp: dist_of_def dest: pair_distance_not_NaN)

lemma set_combinations2:
  "(u, v) \<in> set (combinations2 xs) \<Longrightarrow> u \<in> set xs \<and> v \<in> set xs"
  by (induction xs) auto

lemma distance_loop_keys:
  "set ps \<subseteq> set (keys pos_dict) \<times> set (keys pos_dict) \<Longrightarrow>
   distance_loop pos_dict ps acc =
     (if \<exists>p \<in> set ps. isl (pair_distance pos_dict (fst p) (snd p)) then Inl OverflowError
      else Inr (acc @ map (\<lambda>p. (dist_of pos_dict p, p)) ps))"
proof (induction ps arbitrary: acc)
  case Nil
  then show ?case by simp
next
  case (Cons p ps)
  obtain u v where p: "p = (u, v)" by (cases p)
  with Cons.prems have "u \<in> set (keys pos_dict)" "v \<in> set (keys pos_dict)" by auto
  then have d: "pair_distance pos_dict u v = Inl OverflowError \<or>
      pair_distance pos_dict u v = Inr (dist_of pos_dict (u, v))"
    by (rule pair_distance_key)
  have sub: "set ps \<subseteq> set (keys pos_dict) \<times> set (keys pos_dict)"
    using Cons.prems by auto
  from d show ?case
  proof
    assume "pair_distance pos_dict u v = Inl OverflowError"
    then show ?thesis by (simp add: p)
  next
    assume "pair_distance pos_dict u v = Inr (dist_of pos_dict (u, v))"
    then show ?thesis
      using Cons.IH [OF sub] by (simp add: p)
  qed
qed

lemma insort_key_tagged:
  "insort_key fst (f p, p) (map (\<lambda>p. (f p, p)) ys) = map (\<lambda>p. (f p, p)) (insort_key f p ys)"
  by (induction ys) auto

lemma sort_key_tagged:
  "sort_key fst (map (\<lambda>p. (f p, p)) ps) = map (\<lambda>p. (f p, p)) (sort_key f ps)"
  by (induction ps) (simp_all add: insort_key_tagged)

lemma untag_tagged:
  "map (\<lambda>(d, u, v). (u, v)) (map (\<lambda>p. (f p, p)) ps) = ps"
  by (induction ps) auto

lemma distance_loop_candidates:
  "distance_loop pos_dict (combinations2 (keys pos_dict)) [] =
     (if \<exists>p \<in> set (combinations2 (keys pos_dict)). isl (pair_distance pos_dict (fst p) (snd p))
      then Inl OverflowError
      else Inr (map (\<lambda>p. (dist_of pos_dict p, p)) (combinations2 (keys pos_dict))))"
proof -
  have "set (combinations2 (keys pos_dict)) \<subseteq> set (keys pos_dict) \<times> set (keys pos_dict)"
    using set_combinations2 by fastforce
  then show ?thesis
    by (simp add: distance_loop_keys)
qed

lemma first_loop_raises_iff:
  "first_loop_raises pos_dict \<longleftrightarrow>
   (\<exists>p \<in> set (combinations2 (keys pos_dict)). isl (pair_distance pos_dict (fst p) (snd p)))"
  unfolding first_loop_raises_def ordered_pairs_def Let_def distance_loop_candidates
  by (simp split: if_splits)

lemma ordered_pairs_eq:
  "ordered_pairs pos_dict =
     (if first_loop_raises pos_dict then Inl OverflowError else Inr (sorted_pairs pos_dict))"
proof (cases "first_loop_raises pos_dict")
  case True
  then show ?thesis
    unfolding ordered_pairs_def Let_def distance_loop_candidates
    by (simp add: first_loop_raises_iff)
next
  case False
  then have dl: "distance_loop pos_dict (combinations2 (keys pos_dict)) []
      = Inr (map (\<lambda>p. (dist_of pos_dict p, p)) (combinations2 (keys pos_dict)))"
    unfolding distance_loop_candidates by (simp add: first_loop_raises_iff)
  show ?thesis
    unfolding ordered_pairs_def Let_def dl sorted_pairs_def
    using False by (simp only: sum.case sort_key_tagged untag_tagged if_False)
qed

section \<open>The candidate pairs\<close>

lemma length_combinations2:
  "length (combinations2 xs) = length xs * (length xs - 1) div 2"
proof (induction xs)
  case Nil
  then show ?case by simp
next
  case (Cons x xs)
  have "even (length xs * (length xs - 1))"
    by (cases "length xs") auto
  then have "length xs + length xs * (length xs - 1) div 2
      = (2 * length xs + length xs * (length xs - 1)) div 2"
    by simp
  also have "2 * length xs + length xs * (length xs - 1) = Suc (length xs) * length xs"
    by (cases "length xs") auto
  finally show ?case using Cons.IH by simp
qed

lemma combinations2_irrefl:
  "distinct xs \<Longrightarrow> (u, v) \<in> set (combinations2 xs) \<Longrightarrow> u \<noteq> v"
  by (induction xs) (auto dest: set_combinations2)

lemma combinations2_asym:
  "distinct xs \<Longrightarrow> (u, v) \<in> set (combinations2 xs) \<Longrightarrow> (v, u) \<notin> set (combinations2 xs)"
  by (induction xs) (auto dest: set_combinations2)

lemma distinct_combinations2:
  "distinct xs \<Longrightarrow> distinct (combinations2 xs)"
  by (induction xs) (auto simp: distinct_map inj_on_def dest: set_combinations2)

lemma combinations2_complete:
  "a \<in> set xs \<Longrightarrow> b \<in> set xs \<Longrightarrow> a \<noteq> b \<Longrightarrow>
   (a, b) \<in> set (combinations2 xs) \<or> (b, a) \<in> set (combinations2 xs)"
  by (induction xs) auto

section \<open>The second loop\<close>

lemma add_edges_loop_upt:
  "i \<le> k \<Longrightarrow> i \<le> length ps \<Longrightarrow> add_edges_loop ps [i..<k] G =
     (if k \<le> length ps then Inr (add_edges G (take (k - i) (drop i ps)))
      else Inl (IndexError, add_edges G (drop i ps)))"
proof (induction "k - i" arbitrary: i G)
  case 0
  then show ?case by simp
next
  case (Suc d)
  then have lt: "i < k" and d: "d = k - Suc i" and le: "Suc i \<le> k" by auto
  have upt: "[i..<k] = i # [Suc i..<k]" using lt by (rule upt_conv_Cons)
  show ?case
  proof (cases "i < length ps")
    case True
    then have dr: "drop i ps = ps ! i # drop (Suc i) ps"
      by (simp add: Cons_nth_drop_Suc)
    have tk: "k - i = Suc (k - Suc i)" using lt by simp
    show ?thesis
      using Suc.hyps(1) [OF d le, of "add_edge G (fst (ps ! i)) (snd (ps ! i))"] True
      by (simp add: upt dr tk)
  next
    case False
    with Suc.prems have "i = length ps" by simp
    then have r: "add_edges_loop ps [i..<k] G = Inl (IndexError, G)"
      by (subst upt) simp
    show ?thesis
      unfolding r using lt \<open>i = length ps\<close> by simp
  qed
qed

lemma add_edges_loop_range:
  "add_edges_loop ps (range_py n) G =
     (if nat n \<le> length ps then Inr (add_edges G (take (nat n) ps))
      else Inl (IndexError, add_edges G ps))"
  using add_edges_loop_upt [of 0 "nat n" ps G] by (simp add: range_py_def)

lemma edges_add_edge_new:
  "\<not> has_edge G u v \<Longrightarrow> edges (add_edge G u v) = edges G @ [(u, v)]"
  by (simp add: add_edge_def add_node_def has_edge_def Let_def)

lemma edges_add_edges:
  "simple_pairs (edges G @ ps) \<Longrightarrow> edges (add_edges G ps) = edges G @ ps"
proof (induction ps arbitrary: G)
  case Nil
  then show ?case by simp
next
  case (Cons p ps)
  obtain u v where p: "p = (u, v)" by (cases p)
  from Cons.prems have "\<not> has_edge G u v"
    by (auto simp: simple_pairs_def has_edge_def p)
  then have e: "edges (add_edge G u v) = edges G @ [(u, v)]"
    by (rule edges_add_edge_new)
  with Cons.prems have "simple_pairs (edges (add_edge G u v) @ ps)"
    by (simp add: p)
  from Cons.IH [OF this] show ?case
    by (simp add: p e)
qed

lemma more_add_edges: "graph.more (add_edges G ps) = graph.more G"
  by (induction ps arbitrary: G) (simp_all add: add_edge_def add_node_def Let_def)

section \<open>The function in closed form\<close>

lemma length_sorted_pairs: "length (sorted_pairs pos_dict) = pair_count pos_dict"
  by (simp add: sorted_pairs_def pair_count_def length_combinations2 keys_def)

lemma set_sorted_pairs: "set (sorted_pairs pos_dict) = set (combinations2 (keys pos_dict))"
  by (simp add: sorted_pairs_def)

lemma simple_sorted_pairs:
  "distinct (keys pos_dict) \<Longrightarrow> simple_pairs (sorted_pairs pos_dict)"
  unfolding simple_pairs_def set_sorted_pairs
  by (auto simp: sorted_pairs_def distinct_combinations2
      dest: combinations2_irrefl combinations2_asym)

lemma simple_pairs_take: "simple_pairs ps \<Longrightarrow> simple_pairs (take k ps)"
  unfolding simple_pairs_def
  by (auto dest: in_set_takeD)

lemma sorted_sorted_pairs: "sorted (map (dist_of pos_dict) (sorted_pairs pos_dict))"
  by (simp add: sorted_pairs_def)


lemma model_eq:
  "euclidean_distance_model G pos_dict n_edges =
     (if first_loop_raises pos_dict then Inl (OverflowError, G)
      else if nat n_edges \<le> pair_count pos_dict
      then Inr (add_edges G (take (nat n_edges) (sorted_pairs pos_dict)))
      else Inl (IndexError, add_edges G (sorted_pairs pos_dict)))"
  by (simp add: euclidean_distance_model_def ordered_pairs_eq add_edges_loop_range
      length_sorted_pairs)

lemma edges_model:
  assumes "distinct (keys pos_dict)" and "edges G = []"
  shows "edges (add_edges G (take k (sorted_pairs pos_dict))) = take k (sorted_pairs pos_dict)"
proof -
  have "simple_pairs (take k (sorted_pairs pos_dict))"
    using assms(1) by (intro simple_pairs_take simple_sorted_pairs)
  then show ?thesis
    using edges_add_edges [of G "take k (sorted_pairs pos_dict)"] assms(2) by simp
qed


lemma inj_on_unordered:
  assumes "simple_pairs ps"
  shows "inj_on unordered (set ps)"
proof (rule inj_onI)
  fix e e' assume e: "e \<in> set ps" and e': "e' \<in> set ps" and eq: "unordered e = unordered e'"
  obtain u v where uv: "e = (u, v)" by (cases e)
  obtain u' v' where uv': "e' = (u', v')" by (cases e')
  from eq have "(u = u' \<and> v = v') \<or> (u = v' \<and> v = u')"
    by (simp add: unordered_def uv uv' doubleton_eq_iff)
  moreover have "(v, u) \<notin> set ps"
    using assms e by (auto simp: simple_pairs_def uv)
  ultimately show "e = e'"
    using e' by (auto simp: uv uv')
qed

lemma simple_pairs_unordered: "simple_pairs ps \<Longrightarrow> distinct (map unordered ps)"
  by (simp add: distinct_map inj_on_unordered) (simp add: simple_pairs_def)


text \<open>In a list sorted by a key, the elements of key at most \<open>c\<close> are a prefix.\<close>

lemma sorted_filter_take:
  "sorted (map f ps) \<Longrightarrow>
   filter (\<lambda>p. f p \<le> c) ps = take (length (filter (\<lambda>p. f p \<le> c) ps)) ps"
proof (induction ps)
  case Nil
  then show ?case by simp
next
  case (Cons p ps)
  show ?case
  proof (cases "f p \<le> c")
    case True
    then show ?thesis using Cons by simp
  next
    case False
    have "\<not> f x \<le> c" if "x \<in> set ps" for x
    proof -
      have "f p \<le> f x" using Cons.prems that by auto
      with False show ?thesis by auto
    qed
    then have "filter (\<lambda>p. f p \<le> c) ps = []"
      by (simp add: filter_empty_conv)
    with False show ?thesis by simp
  qed
qed

section \<open>Stable sorting has one result\<close>

lemma stable_sort_of_unique: "stable_sort_of f xs ys \<Longrightarrow> ys = sort_key f xs"
  unfolding stable_sort_of_def
  by (rule sym, rule properties_for_sort_key) auto

lemma stable_sort_of_sort_key: "stable_sort_of f xs (sort_key f xs)"
proof -
  have "filter (\<lambda>x. f k = f x) (sort_key f xs) = filter (\<lambda>x. f k = f x) xs" for k
    using sort_key_stable [of f "f k" xs] by (simp add: eq_commute)
  then show ?thesis
    by (simp add: stable_sort_of_def)
qed

section \<open>What adding edges changes\<close>

lemma nodes_add_node:
  "nodes (add_node G u) = nodes G @ (if u \<in> set (nodes G) then [] else [u])"
  by (simp add: add_node_def has_node_def)

lemma nodes_add_edge:
  "\<exists>ns. nodes (add_edge G u v) = nodes G @ ns \<and> set ns \<subseteq> {u, v} - set (nodes G)"
  by (auto simp: add_edge_def Let_def nodes_add_node)

lemma edges_add_edge:
  "\<exists>es. edges (add_edge G u v) = edges G @ es"
  by (simp add: add_edge_def add_node_def Let_def)

lemma nodes_add_edges:
  "\<exists>ns. nodes (add_edges G ps) = nodes G @ ns \<and>
        set ns \<subseteq> (fst ` set ps \<union> snd ` set ps) - set (nodes G)"
proof (induction ps arbitrary: G)
  case Nil
  then show ?case by simp
next
  case (Cons p ps)
  let ?G1 = "add_edge G (fst p) (snd p)"
  obtain ns1 where 1: "nodes ?G1 = nodes G @ ns1" "set ns1 \<subseteq> {fst p, snd p} - set (nodes G)"
    using nodes_add_edge by blast
  obtain ns2 where 2: "nodes (add_edges ?G1 ps) = nodes ?G1 @ ns2"
      "set ns2 \<subseteq> (fst ` set ps \<union> snd ` set ps) - set (nodes ?G1)"
    using Cons.IH by blast
  have "nodes (add_edges G (p # ps)) = nodes G @ (ns1 @ ns2)"
    using 1 2 by simp
  moreover have "set (ns1 @ ns2) \<subseteq> (fst ` set (p # ps) \<union> snd ` set (p # ps)) - set (nodes G)"
    using 1 2 by auto
  ultimately show ?case by blast
qed

lemma edges_add_edges_prefix:
  "\<exists>es. edges (add_edges G ps) = edges G @ es"
proof (induction ps arbitrary: G)
  case Nil
  then show ?case by simp
next
  case (Cons p ps)
  obtain es1 where "edges (add_edge G (fst p) (snd p)) = edges G @ es1"
    using edges_add_edge by blast
  moreover obtain es2 where "edges (add_edges (add_edge G (fst p) (snd p)) ps)
      = edges (add_edge G (fst p) (snd p)) @ es2"
    using Cons.IH by blast
  ultimately show ?case by simp
qed

lemma set_nodes_add_edge:
  "set (nodes (add_edge G u v)) = set (nodes G) \<union> {u, v}"
  by (auto simp: add_edge_def Let_def nodes_add_node)

lemma set_nodes_add_edges:
  "set (nodes (add_edges G ps)) = set (nodes G) \<union> fst ` set ps \<union> snd ` set ps"
  by (induction ps arbitrary: G) (auto simp: set_nodes_add_edge)

lemma endpoints_combinations2:
  assumes "distinct xs" and "2 \<le> length xs"
  shows "fst ` set (combinations2 xs) \<union> snd ` set (combinations2 xs) = set xs"
proof
  show "fst ` set (combinations2 xs) \<union> snd ` set (combinations2 xs) \<subseteq> set xs"
    using set_combinations2 by fastforce
  show "set xs \<subseteq> fst ` set (combinations2 xs) \<union> snd ` set (combinations2 xs)"
  proof
    fix a assume a: "a \<in> set xs"
    have "card (set xs) = length xs"
      using assms(1) by (rule distinct_card)
    then have "set xs \<noteq> {a}"
      using assms(2) by auto
    then obtain b where b: "b \<in> set xs" "b \<noteq> a"
      using a by blast
    then have "(a, b) \<in> set (combinations2 xs) \<or> (b, a) \<in> set (combinations2 xs)"
      using a combinations2_complete [of a xs b] by auto
    then show "a \<in> fst ` set (combinations2 xs) \<union> snd ` set (combinations2 xs)"
      by force
  qed
qed

lemma final_graph_model:
  "\<exists>k. final_graph (euclidean_distance_model G pos_dict n_edges)
     = add_edges G (take k (sorted_pairs pos_dict))"
proof -
  consider "first_loop_raises pos_dict"
    | "\<not> first_loop_raises pos_dict" "nat n_edges \<le> pair_count pos_dict"
    | "\<not> first_loop_raises pos_dict" "\<not> nat n_edges \<le> pair_count pos_dict"
    by blast
  then show ?thesis
  proof cases
    case 1
    then have "final_graph (euclidean_distance_model G pos_dict n_edges)
        = add_edges G (take 0 (sorted_pairs pos_dict))"
      by (simp add: model_eq final_graph_def)
    then show ?thesis by blast
  next
    case 2
    then show ?thesis
      by (auto simp: model_eq final_graph_def)
  next
    case 3
    then have "final_graph (euclidean_distance_model G pos_dict n_edges)
        = add_edges G (take (pair_count pos_dict) (sorted_pairs pos_dict))"
      by (simp add: model_eq final_graph_def length_sorted_pairs)
    then show ?thesis by blast
  qed
qed

section \<open>Worked inputs\<close>

text \<open>The equations that evaluate the float operations and a call on a concrete input.\<close>

lemmas float_eval = pow2_def floor_log2_def round_half_even_def round_pos_def float_round_def
  float_sub_def sqrt_round_def bit_length.simps isqrt.simps compute_distance.simps Let_def

text \<open>The rounding agrees with binary64 where it is known by heart.\<close>

lemma float_round_tenth:
  "float_round (1 / 10) = Finite (3602879701896397 / 2 ^ 55)"
  by (simp add: float_eval)

lemma float_round_tie_to_even:
  "float_round (10 ^ 16 + 1) = Finite (10 ^ 16)"
  "float_round (10 ^ 16 + 3) = Finite (10 ^ 16 + 4)"
  by (simp_all add: float_eval)

lemma compute_distance_345:
  "compute_distance (0, 0) (3, 0) = Inr (Finite 3)"
  "compute_distance (0, 0) (0, 4) = Inr (Finite 4)"
  "compute_distance (3, 0) (0, 4) = Inr (Finite 5)"
  "compute_distance (0, 4) (3, 0) = Inr (Finite 5)"
  by (simp_all add: float_eval)

lemma compute_distance_unit:
  "compute_distance (0, 0) (1, 0) = Inr (Finite 1)"
  "compute_distance (0, 0) (0, 1) = Inr (Finite 1)"
  by (simp_all add: float_eval)

lemma compute_distance_diagonal:
  "compute_distance (0, 0) (1, 1) = Inr (Finite (6369051672525773 / 2 ^ 52))"
  "compute_distance (1, 0) (0, 1) = Inr (Finite (6369051672525773 / 2 ^ 52))"
  by (simp_all add: float_eval)

lemma compute_distance_far:
  "compute_distance (0, 0) (10, 10) = Inr (Finite (124395540479019 / 2 ^ 43))"
  "compute_distance (1, 0) (10, 10) = Inr (Finite (1893429257661997 / 2 ^ 47))"
  "compute_distance (0, 1) (10, 10) = Inr (Finite (1893429257661997 / 2 ^ 47))"
  by (simp_all add: float_eval)

lemma compute_distance_unit':
  "compute_distance (1, 0) (0, 0) = Inr (Finite 1)"
  "compute_distance (0, 1) (0, 0) = Inr (Finite 1)"
  "compute_distance (0, 1) (1, 0) = Inr (Finite (6369051672525773 / 2 ^ 52))"
  by (simp_all add: float_eval)

lemma compute_distance_far':
  "compute_distance (10, 10) (0, 0) = Inr (Finite (124395540479019 / 2 ^ 43))"
  "compute_distance (10, 10) (1, 0) = Inr (Finite (1893429257661997 / 2 ^ 47))"
  "compute_distance (10, 10) (0, 1) = Inr (Finite (1893429257661997 / 2 ^ 47))"
  by (simp_all add: float_eval)


text \<open>The square of \<open>2^512\<close> is out of range.\<close>

lemma compute_distance_overflow:
  "compute_distance (0, 0) (2 ^ 512, 0) = Inl OverflowError"
  by (simp add: float_eval)

lemma ordered_pairs_triangle: "ordered_pairs triangle = Inr [(1, 2), (1, 3), (2, 3)]"
  by (simp add: ordered_pairs_def keys_def pair_distance_def getitem_def compute_distance_345)


lemma ordered_pairs_two: "ordered_pairs [(1, (0, 0)), (2, (1, 0))] = Inr [(1, 2)]"
  by (simp add: ordered_pairs_def keys_def pair_distance_def getitem_def compute_distance_unit)

lemma ordered_pairs_diagonal: "ordered_pairs [(5, (0, 0)), (7, (1, 1))] = Inr [(5, 7)]"
  by (simp add: ordered_pairs_def keys_def pair_distance_def getitem_def
      compute_distance_diagonal)


lemma ordered_pairs_overflow:
  "ordered_pairs [(1, (0, 0)), (2, (2 ^ 512, 0))] = Inl OverflowError"
  by (simp add: ordered_pairs_def keys_def pair_distance_def getitem_def
      compute_distance_overflow [simplified])

lemmas graph_eval = euclidean_distance_model_def range_py_def empty_graph_def add_edge_def
  add_node_def has_node_def has_edge_def upt_rec first_loop_raises_def

section \<open>Claims\<close>

text \<open>
  C1, as amended. The claim asks for \<open>min(target_edge_count, N*(N-1)/2)\<close> edges at every
  target. For a coordinate mapping (distinct keys, finite float coordinates), an edge-less
  graph and a target between 0 and the number \<open>N*(N-1)/2\<close> of unordered pairs: when the
  first loop raises (a squared coordinate difference is out of the float range) the call
  raises OverflowError and leaves the graph as it was; otherwise it returns a graph with
  exactly that many edges, which is the target itself.
\<close>

theorem edge_count_valid_target:
  assumes "distinct (keys pos_dict)" and "edges G = []"
    and "0 \<le> n_edges" and "n_edges \<le> int (pair_count pos_dict)"
  shows "if first_loop_raises pos_dict
         then euclidean_distance_model G pos_dict n_edges = Inl (OverflowError, G)
         else (\<exists>G'. euclidean_distance_model G pos_dict n_edges = Inr G' \<and>
                 int (number_of_edges G')
                   = min n_edges (int (length pos_dict * (length pos_dict - 1) div 2)))"
proof (cases "first_loop_raises pos_dict")
  case True
  then show ?thesis by (simp add: model_eq)
next
  case False
  let ?G' = "add_edges G (take (nat n_edges) (sorted_pairs pos_dict))"
  have le: "nat n_edges \<le> pair_count pos_dict"
    using assms(3,4) by simp
  then have r: "euclidean_distance_model G pos_dict n_edges = Inr ?G'"
    using False by (simp add: model_eq)
  have "edges ?G' = take (nat n_edges) (sorted_pairs pos_dict)"
    using assms(1,2) by (rule edges_model)
  then have "number_of_edges ?G' = nat n_edges"
    using le by (simp add: number_of_edges_def length_sorted_pairs)
  then have "int (number_of_edges ?G')
      = min n_edges (int (length pos_dict * (length pos_dict - 1) div 2))"
    using assms(3,4) by (simp add: pair_count_def)
  with r False show ?thesis by simp
qed

theorem edge_count_valid_target_witness:
  "distinct (keys triangle) \<and> edges empty_graph = [] \<and>
   (0::int) \<le> 2 \<and> 2 \<le> int (pair_count triangle) \<and> \<not> first_loop_raises triangle \<and>
   (\<exists>G'. euclidean_distance_model empty_graph triangle 2 = Inr G' \<and>
      int (number_of_edges G') = 2)"
proof -
  have h: "distinct (keys triangle)" "edges empty_graph = []"
      "(0::int) \<le> 2" "2 \<le> int (pair_count triangle)"
    by (simp_all add: keys_def empty_graph_def pair_count_def)
  have n: "\<not> first_loop_raises triangle"
    by (simp add: first_loop_raises_def ordered_pairs_triangle)
  from edge_count_valid_target [OF h] n h show ?thesis by simp
qed

text \<open>
  The claim as stated fails outside that range. With two nodes (one pair), the target
  \<open>-1\<close> returns the graph with 0 edges, which is not \<open>min(-1, 1)\<close>; the target 2 returns
  nothing: \<open>ordered_pairs[1]\<close> raises IndexError after the one pair has been added.
\<close>

theorem edge_count_counterexample:
  "euclidean_distance_model empty_graph [(1, (0, 0)), (2, (1, 0))] (-1) = Inr empty_graph \<and>
   int (number_of_edges empty_graph) \<noteq> min (-1) (int (2 * (2 - 1) div 2)) \<and>
   euclidean_distance_model empty_graph [(1, (0, 0)), (2, (1, 0))] 2
     = Inl (IndexError, \<lparr>nodes = [1, 2], edges = [(1, 2)]\<rparr>)"
  by (simp add: graph_eval ordered_pairs_two number_of_edges_def)

text \<open>
  C2, as amended. The function has no check of the target. When the first loop raises, any
  call raises OverflowError with the graph as supplied. Otherwise a negative target raises
  nothing and returns the graph as supplied, and a target above the number of pairs
  raises IndexError (the out-of-range read of \<open>ordered_pairs\<close>), and only after every
  candidate pair has been added to the supplied graph.
\<close>

theorem invalid_target_behaviour:
  assumes "distinct (keys pos_dict)" and "edges G = []"
    and "n_edges < 0 \<or> int (pair_count pos_dict) < n_edges"
  shows "if first_loop_raises pos_dict
         then euclidean_distance_model G pos_dict n_edges = Inl (OverflowError, G)
         else if n_edges < 0 then euclidean_distance_model G pos_dict n_edges = Inr G
         else (\<exists>G'. euclidean_distance_model G pos_dict n_edges = Inl (IndexError, G') \<and>
                 edges G' = sorted_pairs pos_dict \<and>
                 number_of_edges G' = pair_count pos_dict)"
proof -
  consider "first_loop_raises pos_dict" | "\<not> first_loop_raises pos_dict" "n_edges < 0"
    | "\<not> first_loop_raises pos_dict" "\<not> n_edges < 0"
    by blast
  then show ?thesis
  proof cases
    case 1
    then show ?thesis by (simp add: model_eq)
  next
    case 2
    then show ?thesis by (simp add: model_eq)
  next
    case 3
    with assms(3) have gt: "pair_count pos_dict < nat n_edges" by simp
    let ?G' = "add_edges G (sorted_pairs pos_dict)"
    have r: "euclidean_distance_model G pos_dict n_edges = Inl (IndexError, ?G')"
      using gt 3 by (simp add: model_eq)
    have "edges (add_edges G (take (pair_count pos_dict) (sorted_pairs pos_dict)))
        = take (pair_count pos_dict) (sorted_pairs pos_dict)"
      using assms(1,2) by (rule edges_model)
    then have e: "edges ?G' = sorted_pairs pos_dict"
      by (simp add: length_sorted_pairs)
    then have "number_of_edges ?G' = pair_count pos_dict"
      by (simp add: number_of_edges_def length_sorted_pairs)
    with r e 3 show ?thesis by simp
  qed
qed

theorem invalid_target_behaviour_witness:
  "distinct (keys triangle) \<and> edges empty_graph = [] \<and> \<not> first_loop_raises triangle \<and>
   int (pair_count triangle) < 4 \<and> (-2 :: int) < 0 \<and>
   (\<exists>G'. euclidean_distance_model empty_graph triangle 4 = Inl (IndexError, G') \<and>
      number_of_edges G' = 3) \<and>
   euclidean_distance_model empty_graph triangle (-2) = Inr empty_graph"
proof -
  have h: "distinct (keys triangle)" "edges empty_graph = []"
    by (simp_all add: keys_def empty_graph_def)
  have n: "\<not> first_loop_raises triangle"
    by (simp add: first_loop_raises_def ordered_pairs_triangle)
  have p: "pair_count triangle = 3"
    by (simp add: pair_count_def)
  have a: "(4::int) < 0 \<or> int (pair_count triangle) < 4"
    and b: "(-2::int) < 0 \<or> int (pair_count triangle) < -2"
    by (simp_all add: p)
  from invalid_target_behaviour [OF h a] invalid_target_behaviour [OF h b] h n
  show ?thesis by (auto simp: p)
qed

text \<open>
  The claim as stated (an error raised before any edge is added) fails at both kinds of
  invalid target: with three nodes, the target 4 raises IndexError once all three edges
  are in the graph, and the target \<open>-2\<close> returns without an error.
\<close>

theorem invalid_target_counterexample:
  "euclidean_distance_model empty_graph [(1, (0, 0)), (2, (3, 0)), (3, (0, 4))] 4
     = Inl (IndexError, \<lparr>nodes = [1, 2, 3], edges = [(1, 2), (1, 3), (2, 3)]\<rparr>) \<and>
   euclidean_distance_model empty_graph [(1, (0, 0)), (2, (3, 0)), (3, (0, 4))] (-2)
     = Inr empty_graph"
  by (simp add: graph_eval ordered_pairs_triangle)

text \<open>
  C3. Two calls on the same graph, mapping (same entries in the same order) and target
  give the same outcome, the same edges added in the same order. The only step with more
  than one conceivable result is the sort: whatever stable ascending arrangements of
  \<open>distance_list\<close> two calls obtain, they are the same list, and the second loop run on
  either gives the outcome of \<open>euclidean_distance_model\<close>.
\<close>

theorem deterministic_output:
  assumes "distance_loop pos_dict (combinations2 (keys pos_dict)) [] = Inr distance_list"
    and "stable_sort_of fst distance_list sorted1"
    and "stable_sort_of fst distance_list sorted2"
  shows "sorted1 = sorted2 \<and>
         add_edges_loop (map (\<lambda>(d, u, v). (u, v)) sorted1) (range_py n_edges) G
           = euclidean_distance_model G pos_dict n_edges \<and>
         add_edges_loop (map (\<lambda>(d, u, v). (u, v)) sorted2) (range_py n_edges) G
           = euclidean_distance_model G pos_dict n_edges"
proof -
  have 1: "sorted1 = sort_key fst distance_list"
    using assms(2) by (rule stable_sort_of_unique)
  have 2: "sorted2 = sort_key fst distance_list"
    using assms(3) by (rule stable_sort_of_unique)
  have "euclidean_distance_model G pos_dict n_edges
      = add_edges_loop (map (\<lambda>(d, u, v). (u, v)) (sort_key fst distance_list))
          (range_py n_edges) G"
    by (simp add: euclidean_distance_model_def ordered_pairs_def assms(1))
  then show ?thesis
    by (simp add: 1 2)
qed

theorem deterministic_output_witness:
  "distance_loop triangle' (combinations2 (keys triangle')) []
     = Inr [(Finite 4, 1, 2), (Finite 3, 1, 3), (Finite 5, 2, 3)] \<and>
   stable_sort_of fst [(Finite 4, 1, 2), (Finite 3, 1, 3), (Finite 5, 2, 3)]
     [(Finite 3, 1, 3), (Finite 4, 1, 2), (Finite 5, 2, 3 :: int)] \<and>
   add_edges_loop (map (\<lambda>(d, u, v). (u, v)) [(Finite 3, 1, 3), (Finite 4, 1, 2), (Finite 5, 2, 3)])
       (range_py 2) empty_graph
     = euclidean_distance_model empty_graph triangle' 2"
proof -
  have h: "distance_loop triangle' (combinations2 (keys triangle')) []
       = Inr [(Finite 4, 1, 2), (Finite 3, 1, 3), (Finite 5, 2, 3)]"
    by (simp add: keys_def pair_distance_def getitem_def compute_distance_345)
  have s: "stable_sort_of fst [(Finite 4, 1, 2), (Finite 3, 1, 3), (Finite 5, 2, 3)]
     [(Finite 3, 1, 3), (Finite 4, 1, 2), (Finite 5, 2, 3 :: int)]"
    by (simp add: stable_sort_of_def)
  from deterministic_output [OF h s s, of 2 empty_graph] h s show ?thesis by simp
qed







text \<open>
  C6. For a coordinate mapping (distinct keys) and an edge-less graph, whenever the
  function returns, the returned edge set is simple: no edge joins a node to itself and
  no unordered pair is an edge twice.
\<close>

theorem no_loops_no_duplicates:
  assumes "distinct (keys pos_dict)" and "edges G = []"
    and "euclidean_distance_model G pos_dict n_edges = Inr G'"
  shows "(\<forall>(u, v) \<in> set (edges G'). u \<noteq> v) \<and> distinct (map unordered (edges G'))"
proof -
  let ?ps = "take (nat n_edges) (sorted_pairs pos_dict)"
  have "G' = add_edges G ?ps"
    using assms(3) by (simp add: model_eq split: if_splits)
  moreover have "edges (add_edges G ?ps) = ?ps"
    using assms(1,2) by (rule edges_model)
  ultimately have e: "edges G' = ?ps" by simp
  have s: "simple_pairs ?ps"
    using assms(1) by (intro simple_pairs_take simple_sorted_pairs)
  then have "\<forall>(u, v) \<in> set ?ps. u \<noteq> v"
    by (auto simp: simple_pairs_def)
  moreover have "distinct (map unordered ?ps)"
    using s by (rule simple_pairs_unordered)
  ultimately show ?thesis
    by (simp add: e)
qed

theorem no_loops_no_duplicates_witness:
  "distinct (keys triangle) \<and> edges empty_graph = [] \<and>
   euclidean_distance_model empty_graph triangle 2
     = Inr \<lparr>nodes = [1, 2, 3], edges = [(1, 2), (1, 3)]\<rparr> \<and>
   distinct (map unordered (edges \<lparr>nodes = [1, 2, 3], edges = [(1, 2), (1, 3)]\<rparr>))"
proof -
  have h: "distinct (keys triangle)" "edges empty_graph = []"
    by (simp_all add: keys_def empty_graph_def)
  have v: "euclidean_distance_model empty_graph triangle 2
      = Inr \<lparr>nodes = [1, 2, 3], edges = [(1, 2), (1, 3)]\<rparr>"
    by (simp add: graph_eval ordered_pairs_triangle)
  from no_loops_no_duplicates [OF h v] v h show ?thesis by simp
qed

text \<open>
  C7, as amended. The mapping is only read (\<open>keys()\<close> and subscripts), so it is a value
  of the model and no call can change it. Of the supplied graph, whether the call returns
  or raises: the edges present stay and edges are appended; the nodes present stay, in
  their order, and the nodes appended are keys of the mapping that were not nodes yet
  (\<open>add_edge\<close> adds missing endpoints), none when every key is already a node; everything
  else the graph carries is as before.
\<close>

theorem frame_condition:
  "\<exists>ns es. nodes (final_graph (euclidean_distance_model G pos_dict n_edges)) = nodes G @ ns \<and>
     set ns \<subseteq> set (keys pos_dict) - set (nodes G) \<and>
     (set (keys pos_dict) \<subseteq> set (nodes G) \<longrightarrow> ns = []) \<and>
     edges (final_graph (euclidean_distance_model G pos_dict n_edges)) = edges G @ es \<and>
     graph.more (final_graph (euclidean_distance_model G pos_dict n_edges)) = graph.more G"
proof -
  obtain k where k: "final_graph (euclidean_distance_model G pos_dict n_edges)
      = add_edges G (take k (sorted_pairs pos_dict))"
    using final_graph_model by blast
  let ?ps = "take k (sorted_pairs pos_dict)"
  obtain ns where ns: "nodes (add_edges G ?ps) = nodes G @ ns"
      "set ns \<subseteq> (fst ` set ?ps \<union> snd ` set ?ps) - set (nodes G)"
    using nodes_add_edges by blast
  obtain es where es: "edges (add_edges G ?ps) = edges G @ es"
    using edges_add_edges_prefix by blast
  have "set ?ps \<subseteq> set (combinations2 (keys pos_dict))"
    using set_take_subset [of k "sorted_pairs pos_dict"] by (simp add: set_sorted_pairs)
  then have "fst ` set ?ps \<union> snd ` set ?ps \<subseteq> set (keys pos_dict)"
    using set_combinations2 by fastforce
  with ns(2) have sub: "set ns \<subseteq> set (keys pos_dict) - set (nodes G)"
    by blast
  then have "set (keys pos_dict) \<subseteq> set (nodes G) \<longrightarrow> set ns \<subseteq> {}"
    by blast
  then have "set (keys pos_dict) \<subseteq> set (nodes G) \<longrightarrow> ns = []"
    by simp
  with ns(1) sub es show ?thesis
    unfolding k by (simp add: more_add_edges)
qed

theorem frame_condition_witness:
  "set (keys triangle) \<subseteq> set (nodes \<lparr>nodes = [3, 2, 1], edges = []\<rparr>) \<and>
   euclidean_distance_model \<lparr>nodes = [3, 2, 1], edges = []\<rparr> triangle 2
     = Inr \<lparr>nodes = [3, 2, 1], edges = [(1, 2), (1, 3)]\<rparr> \<and>
   (\<exists>ns es. nodes (final_graph (euclidean_distance_model \<lparr>nodes = [3, 2, 1], edges = []\<rparr> triangle 2))
        = nodes \<lparr>nodes = [3, 2, 1], edges = []\<rparr> @ ns \<and> ns = [] \<and>
      edges (final_graph (euclidean_distance_model \<lparr>nodes = [3, 2, 1], edges = []\<rparr> triangle 2))
        = edges \<lparr>nodes = [3, 2, 1], edges = []\<rparr> @ es)"
proof -
  have h: "set (keys triangle) \<subseteq> set (nodes \<lparr>nodes = [3, 2, 1], edges = []\<rparr>)"
    by (simp add: keys_def)
  have v: "euclidean_distance_model \<lparr>nodes = [3, 2, 1], edges = []\<rparr> triangle 2
     = Inr \<lparr>nodes = [3, 2, 1], edges = [(1, 2), (1, 3)]\<rparr>"
    by (simp add: graph_eval ordered_pairs_triangle)
  from frame_condition [of "\<lparr>nodes = [3, 2, 1], edges = []\<rparr>" triangle 2] h v
  show ?thesis by (simp add: final_graph_def)
qed

text \<open>
  The claim as stated (nothing but the edge set changes) fails when the graph lacks a node
  of the mapping: on the empty graph the call with target 1 also adds the nodes 5 and 7.
\<close>

theorem frame_condition_counterexample:
  "euclidean_distance_model empty_graph [(5, (0, 0)), (7, (1, 1))] 1
     = Inr \<lparr>nodes = [5, 7], edges = [(5, 7)]\<rparr> \<and>
   nodes \<lparr>nodes = [5, 7], edges = [(5, 7)]\<rparr> \<noteq> nodes empty_graph"
  by (simp add: graph_eval ordered_pairs_diagonal)

text \<open>
  C8, as amended. For a coordinate mapping with at least two nodes and an edge-less graph
  whose nodes are nodes of the mapping, with the target equal to the number \<open>N*(N-1)/2\<close> of
  pairs: when the first loop raises, the call raises OverflowError and leaves the graph as
  it was; otherwise it returns the complete graph on the nodes of the mapping: its nodes
  are the keys, two nodes are joined exactly when they are distinct keys, and there are
  \<open>N*(N-1)/2\<close> edges.
\<close>

theorem full_target_complete_graph:
  assumes "distinct (keys pos_dict)" and "2 \<le> length pos_dict"
    and "edges G = []" and "set (nodes G) \<subseteq> set (keys pos_dict)"
  shows "if first_loop_raises pos_dict
         then euclidean_distance_model G pos_dict (int (pair_count pos_dict))
                = Inl (OverflowError, G)
         else (\<exists>G'. euclidean_distance_model G pos_dict (int (pair_count pos_dict)) = Inr G' \<and>
                 set (nodes G') = set (keys pos_dict) \<and>
                 number_of_edges G' = pair_count pos_dict \<and>
                 (\<forall>a b. has_edge G' a b \<longleftrightarrow>
                    a \<in> set (keys pos_dict) \<and> b \<in> set (keys pos_dict) \<and> a \<noteq> b))"
proof (cases "first_loop_raises pos_dict")
  case True
  then show ?thesis by (simp add: model_eq)
next
  case False
  let ?G' = "add_edges G (take (pair_count pos_dict) (sorted_pairs pos_dict))"
  have r: "euclidean_distance_model G pos_dict (int (pair_count pos_dict)) = Inr ?G'"
    using False by (simp add: model_eq)
  have t: "take (pair_count pos_dict) (sorted_pairs pos_dict) = sorted_pairs pos_dict"
    by (simp add: length_sorted_pairs)
  have "edges ?G' = take (pair_count pos_dict) (sorted_pairs pos_dict)"
    using assms(1,3) by (rule edges_model)
  then have e: "edges ?G' = sorted_pairs pos_dict"
    by (simp add: t)
  have "has_edge ?G' a b \<longleftrightarrow>
      a \<in> set (keys pos_dict) \<and> b \<in> set (keys pos_dict) \<and> a \<noteq> b" for a b
    unfolding has_edge_def e set_sorted_pairs
    using assms(1) combinations2_complete [of a "keys pos_dict" b]
      combinations2_irrefl [of "keys pos_dict" a b] combinations2_irrefl [of "keys pos_dict" b a]
      set_combinations2 [of a b "keys pos_dict"] set_combinations2 [of b a "keys pos_dict"]
    by blast
  moreover have "number_of_edges ?G' = pair_count pos_dict"
    unfolding number_of_edges_def e by (rule length_sorted_pairs)
  moreover have "set (nodes ?G') = set (keys pos_dict)"
  proof -
    have "2 \<le> length (keys pos_dict)"
      using assms(2) by (simp add: keys_def)
    with assms(1) have "fst ` set (combinations2 (keys pos_dict))
        \<union> snd ` set (combinations2 (keys pos_dict)) = set (keys pos_dict)"
      by (rule endpoints_combinations2)
    then show ?thesis
      unfolding t set_nodes_add_edges set_sorted_pairs using assms(4) by blast
  qed
  ultimately show ?thesis
    using r False by simp
qed

theorem full_target_complete_graph_witness:
  "distinct (keys triangle) \<and> 2 \<le> length triangle \<and> edges empty_graph = [] \<and>
   set (nodes empty_graph) \<subseteq> set (keys triangle) \<and> \<not> first_loop_raises triangle \<and>
   int (pair_count triangle) = 3 \<and>
   (\<exists>G'. euclidean_distance_model empty_graph triangle 3 = Inr G' \<and>
      nodes G' = [1, 2, 3] \<and> edges G' = [(1, 2), (1, 3), (2, 3)] \<and> number_of_edges G' = 3 \<and>
      (\<forall>a b. has_edge G' a b \<longleftrightarrow> a \<in> {1, 2, 3} \<and> b \<in> {1, 2, 3} \<and> a \<noteq> b))"
proof -
  have h: "distinct (keys triangle)" "2 \<le> length triangle" "edges empty_graph = []"
      "set (nodes empty_graph) \<subseteq> set (keys triangle)"
    by (simp_all add: keys_def empty_graph_def)
  have n: "\<not> first_loop_raises triangle"
    by (simp add: first_loop_raises_def ordered_pairs_triangle)
  have p: "int (pair_count triangle) = 3"
    by (simp add: pair_count_def)
  have v: "euclidean_distance_model empty_graph triangle 3
      = Inr \<lparr>nodes = [1, 2, 3], edges = [(1, 2), (1, 3), (2, 3)]\<rparr>"
    by (simp add: graph_eval ordered_pairs_triangle)
  from full_target_complete_graph [OF h] v h n p show ?thesis
    by (auto simp: keys_def)
qed

text \<open>
  The claim as stated (a complete graph for every mapping) fails where a squared
  coordinate difference is out of the float range: for the two nodes at (0,0) and
  (2^512,0) the full target is 1, and the call raises OverflowError in the first loop.
\<close>

theorem full_target_counterexample:
  "int (pair_count [(1, (0, 0)), (2, (2 ^ 512, 0))]) = 1 \<and>
   euclidean_distance_model empty_graph [(1, (0, 0)), (2, (2 ^ 512, 0))] 1
     = Inl (OverflowError, empty_graph)"
  by (simp add: euclidean_distance_model_def ordered_pairs_overflow [simplified] pair_count_def)

text \<open>
  C9. Four nodes \<open>a\<close>, \<open>b\<close>, \<open>c\<close>, \<open>d\<close> at (0,0), (1,0), (0,1), (10,10), in whatever order the
  mapping holds them, and the target 2: the function returns exactly the two edges
  \<open>{a, b}\<close> and \<open>{a, c}\<close>, both of computed distance 1.0, and no returned edge touches \<open>d\<close>.
\<close>

theorem four_node_scenario:
  assumes "distinct (keys pos_dict)"
    and "set pos_dict = {(a, (0, 0)), (b, (1, 0)), (c, (0, 1)), (d, (10, 10))}"
    and "edges G = []"
  shows "\<exists>G'. euclidean_distance_model G pos_dict 2 = Inr G' \<and>
           unordered ` set (edges G') = {{a, b}, {a, c}} \<and> number_of_edges G' = 2 \<and>
           pair_distance pos_dict a b = Inr (Finite 1) \<and>
           pair_distance pos_dict a c = Inr (Finite 1) \<and>
           (\<forall>(u, v) \<in> set (edges G'). u \<noteq> d \<and> v \<noteq> d)"
proof -
  let ?K = "dist_of pos_dict"
  let ?ps = "sorted_pairs pos_dict"
  let ?S = "filter (\<lambda>p. ?K p \<le> Finite 1) ?ps"
  have dk: "distinct (map fst pos_dict)"
    using assms(1) by (simp add: keys_def)
  have look: "getitem pos_dict u = Inr xy" if "(u, xy) \<in> set pos_dict" for u xy
    using map_of_is_SomeI [OF dk that] by (simp add: getitem_def)
  have ga: "getitem pos_dict a = Inr (0, 0)" and gb: "getitem pos_dict b = Inr (1, 0)"
    and gc: "getitem pos_dict c = Inr (0, 1)" and gd: "getitem pos_dict d = Inr (10, 10)"
    by (rule look, simp add: assms(2))+
  have ne: "a \<noteq> b" "a \<noteq> c" "a \<noteq> d" "b \<noteq> c" "b \<noteq> d" "c \<noteq> d"
    using ga gb gc gd by auto
  have ks: "set (keys pos_dict) = {a, b, c, d}"
    by (auto simp: keys_def assms(2))
  have "distinct pos_dict"
    using dk by (simp add: distinct_map)
  then have "length pos_dict = card (set pos_dict)"
    by (simp add: distinct_card)
  also have "\<dots> = 4"
    using ne by (simp add: assms(2))
  finally have pc: "pair_count pos_dict = 6"
    by (simp add: pair_count_def)
  have pd: "pair_distance pos_dict a b = Inr (Finite 1)"
      "pair_distance pos_dict b a = Inr (Finite 1)"
      "pair_distance pos_dict a c = Inr (Finite 1)"
      "pair_distance pos_dict c a = Inr (Finite 1)"
      "pair_distance pos_dict b c = Inr (Finite (6369051672525773 / 2 ^ 52))"
      "pair_distance pos_dict c b = Inr (Finite (6369051672525773 / 2 ^ 52))"
      "pair_distance pos_dict a d = Inr (Finite (124395540479019 / 2 ^ 43))"
      "pair_distance pos_dict d a = Inr (Finite (124395540479019 / 2 ^ 43))"
      "pair_distance pos_dict b d = Inr (Finite (1893429257661997 / 2 ^ 47))"
      "pair_distance pos_dict d b = Inr (Finite (1893429257661997 / 2 ^ 47))"
      "pair_distance pos_dict c d = Inr (Finite (1893429257661997 / 2 ^ 47))"
      "pair_distance pos_dict d c = Inr (Finite (1893429257661997 / 2 ^ 47))"
    unfolding pair_distance_def ga gb gc gd sum.case
    by (fact compute_distance_unit compute_distance_diagonal compute_distance_far
        compute_distance_unit' compute_distance_far')+
  have cand: "u \<in> {a, b, c, d} \<and> v \<in> {a, b, c, d} \<and> u \<noteq> v"
    if "(u, v) \<in> set (combinations2 (keys pos_dict))" for u v
    using set_combinations2 [OF that] combinations2_irrefl [OF assms(1) that]
    by (simp add: ks)
  have ok: "\<not> isl (pair_distance pos_dict u v)"
    if "u \<in> {a, b, c, d}" "v \<in> {a, b, c, d}" "u \<noteq> v" for u v
    using that by (elim insertE emptyE; simp add: pd)
  note ne' = ne ne [symmetric]
  have kd: "?K (a, b) = Finite 1" "?K (b, a) = Finite 1"
      "?K (a, c) = Finite 1" "?K (c, a) = Finite 1"
      "?K (b, c) = Finite (6369051672525773 / 2 ^ 52)"
      "?K (c, b) = Finite (6369051672525773 / 2 ^ 52)"
      "?K (a, d) = Finite (124395540479019 / 2 ^ 43)"
      "?K (d, a) = Finite (124395540479019 / 2 ^ 43)"
      "?K (b, d) = Finite (1893429257661997 / 2 ^ 47)"
      "?K (d, b) = Finite (1893429257661997 / 2 ^ 47)"
      "?K (c, d) = Finite (1893429257661997 / 2 ^ 47)"
      "?K (d, c) = Finite (1893429257661997 / 2 ^ 47)"
    by (simp_all add: dist_of_def pd)
  have short: "?K (u, v) \<le> Finite 1 \<longleftrightarrow> unordered (u, v) \<in> {{a, b}, {a, c}}"
    if "u \<in> {a, b, c, d}" "v \<in> {a, b, c, d}" "u \<noteq> v" for u v
    using that
    by (elim insertE emptyE; simp add: kd unordered_def doubleton_eq_iff ne')
  have nr: "\<not> first_loop_raises pos_dict"
  proof -
    have "\<not> isl (pair_distance pos_dict (fst p) (snd p))"
      if "p \<in> set (combinations2 (keys pos_dict))" for p
    proof -
      obtain u v where p: "p = (u, v)" by (cases p)
      show ?thesis
        using cand [of u v] ok [of u v] that by (simp add: p)
    qed
    then show ?thesis
      unfolding first_loop_raises_iff by blast
  qed
  have sp: "simple_pairs ?ps"
    using assms(1) by (rule simple_sorted_pairs)
  have sh: "?K p \<le> Finite 1 \<longleftrightarrow> unordered p \<in> {{a, b}, {a, c}}"
    if "p \<in> set (combinations2 (keys pos_dict))" for p
  proof -
    obtain u v where p: "p = (u, v)" by (cases p)
    show ?thesis
      using cand [of u v] short [of u v] that by (simp add: p)
  qed
  have "set ?S = {p. p \<in> set (combinations2 (keys pos_dict)) \<and> ?K p \<le> Finite 1}"
    by (simp add: set_sorted_pairs)
  also have "\<dots> = {p. p \<in> set (combinations2 (keys pos_dict)) \<and>
      unordered p \<in> {{a, b}, {a, c}}}"
    by (rule Collect_cong) (use sh in blast)
  finally have S_set: "set ?S = {p \<in> set (combinations2 (keys pos_dict)).
      unordered p \<in> {{a, b}, {a, c}}}" .
  have img: "unordered ` set ?S = {{a, b}, {a, c}}"
  proof
    show "unordered ` set ?S \<subseteq> {{a, b}, {a, c}}"
      unfolding S_set by blast
    have "(a, b) \<in> set (combinations2 (keys pos_dict))
        \<or> (b, a) \<in> set (combinations2 (keys pos_dict))"
      by (rule combinations2_complete) (simp_all add: ks ne)
    then have 1: "{a, b} \<in> unordered ` set ?S"
      unfolding S_set by (force simp: unordered_def insert_commute)
    have "(a, c) \<in> set (combinations2 (keys pos_dict))
        \<or> (c, a) \<in> set (combinations2 (keys pos_dict))"
      by (rule combinations2_complete) (simp_all add: ks ne)
    then have 2: "{a, c} \<in> unordered ` set ?S"
      unfolding S_set by (force simp: unordered_def insert_commute)
    from 1 2 show "{{a, b}, {a, c}} \<subseteq> unordered ` set ?S"
      by simp
  qed
  have "inj_on unordered (set ?S)"
    using inj_on_unordered [OF sp] by (rule inj_on_subset) simp
  then have "card (set ?S) = card (unordered ` set ?S)"
    by (simp add: card_image)
  also have "\<dots> = 2"
    unfolding img using ne by (simp add: doubleton_eq_iff)
  finally have cs: "card (set ?S) = 2" .
  have "distinct ?S"
    using sp by (simp add: simple_pairs_def)
  then have "card (set ?S) = length ?S"
    by (rule distinct_card)
  with cs have len: "length ?S = 2"
    by (simp only:)
  have "?S = take (length ?S) ?ps"
    using sorted_sorted_pairs by (rule sorted_filter_take)
  then have tk: "take 2 ?ps = ?S"
    by (simp add: len)
  let ?G' = "add_edges G (take 2 ?ps)"
  have r: "euclidean_distance_model G pos_dict 2 = Inr ?G'"
    using nr by (simp add: model_eq pc)
  have e: "edges ?G' = ?S"
    using edges_model [OF assms(1,3), of 2] by (simp add: tk)
  have "u \<noteq> d \<and> v \<noteq> d" if "(u, v) \<in> set ?S" for u v
  proof -
    from that have "unordered (u, v) \<in> {{a, b}, {a, c}}"
      unfolding S_set by simp
    then show ?thesis
      using ne by (auto simp: unordered_def doubleton_eq_iff)
  qed
  then have "\<forall>(u, v) \<in> set (edges ?G'). u \<noteq> d \<and> v \<noteq> d"
    unfolding e by blast
  moreover have "number_of_edges ?G' = 2"
    by (simp add: number_of_edges_def e len)
  ultimately show ?thesis
    using r img pd(1,3) unfolding e [symmetric] by blast
qed

theorem four_node_scenario_witness:
  "distinct (keys [(3, (10, 10)), (2, (0, 1)), (1, (1, 0)), (0, (0, 0))]) \<and>
   set [(3, (10, 10)), (2, (0, 1)), (1, (1, 0)), (0, (0 :: real, 0 :: real))]
     = {(0 :: int, (0, 0)), (1, (1, 0)), (2, (0, 1)), (3, (10, 10))} \<and>
   edges empty_graph = [] \<and>
   (\<exists>G'. euclidean_distance_model empty_graph
           [(3, (10, 10)), (2, (0, 1)), (1, (1, 0)), (0, (0, 0))] 2 = Inr G' \<and>
      unordered ` set (edges G') = {{0, 1}, {0, 2}} \<and> number_of_edges G' = 2 \<and>
      3 \<notin> fst ` set (edges G') \<union> snd ` set (edges G'))"
proof -
  have h: "distinct (keys [(3, (10, 10)), (2, (0, 1)), (1, (1, 0)), (0, (0, 0))])"
      "set [(3, (10, 10)), (2, (0, 1)), (1, (1, 0)), (0, (0 :: real, 0 :: real))]
         = {(0 :: int, (0, 0)), (1, (1, 0)), (2, (0, 1)), (3, (10, 10))}"
      "edges empty_graph = []"
    by (auto simp: keys_def empty_graph_def)
  from four_node_scenario [OF h] h show ?thesis
    by fastforce
qed

text \<open>
  C10, as amended. The first loop runs before \<open>range(n_edges)\<close> is looked at. For a
  negative \<open>n_edges\<close>: when the first loop raises, the call raises OverflowError with the
  graph as supplied; otherwise it returns the supplied graph, with no edge added, and
  raises nothing.
\<close>

theorem negative_target_returns_graph:
  "n_edges < 0 \<Longrightarrow>
   euclidean_distance_model G pos_dict n_edges
     = (if first_loop_raises pos_dict then Inl (OverflowError, G) else Inr G)"
  by (simp add: model_eq)

theorem negative_target_returns_graph_witness:
  "(-1 :: int) < 0 \<and> \<not> first_loop_raises [(1, (0, 0)), (2, (1, 0))] \<and>
   euclidean_distance_model empty_graph [(1, (0, 0)), (2, (1, 0))] (-1) = Inr empty_graph"
proof -
  have n: "\<not> first_loop_raises [(1, (0, 0)), (2, (1, 0))]"
    by (simp add: first_loop_raises_def ordered_pairs_two)
  from negative_target_returns_graph [of "-1" empty_graph "[(1, (0, 0)), (2, (1, 0))]"] n
  show ?thesis by simp
qed

text \<open>
  The claim as stated (no error for every mapping) fails where a squared coordinate
  difference is out of the float range: for the nodes at (0,0) and (2^512,0) the call
  with \<open>n_edges = -1\<close> raises OverflowError.
\<close>

theorem negative_target_counterexample:
  "euclidean_distance_model empty_graph [(1, (0, 0)), (2, (2 ^ 512, 0))] (-1)
     = Inl (OverflowError, empty_graph)"
  by (simp add: euclidean_distance_model_def ordered_pairs_overflow [simplified])

end
